theory Spec2Isabelle
  imports Main "HOL-Library.Sublist"
begin

section \<open>The automation driver as an environment\<close>

text \<open>
  The browser driver is an external collaborator. Every call the code makes on it is
  modelled by the answer the driver gives: a value, or an exception. The answers are
  parameters of the model (fields of the records below), so the theorems hold for every
  behaviour of the page. Logging, sleeping inside the resolver and the diagnostic
  screenshots (\<^verbatim>\<open>take_screenshot\<close> catches its own exceptions) have no influence on
  any returned value and are left out.
\<close>

datatype exn = TimeoutException | OtherException string

text \<open>\<^verbatim>\<open>str(e)\<close> of a caught exception.\<close>

fun str_exn :: "exn \<Rightarrow> string" where
  "str_exn TimeoutException = ''Message: ''"
| "str_exn (OtherException m) = m"

text \<open>
  What one invocation of a click method does: it raises, it acts on the control, or it
  evaluates to \<^verbatim>\<open>None\<close> without touching the control (the \<^verbatim>\<open>else None\<close> arm of
  the guarded lambdas).
\<close>

datatype call = Raises exn | Acts | Returns_None

fun invoke :: "exn option \<Rightarrow> call" where
  "invoke None = Acts"
| "invoke (Some e) = Raises e"

text \<open>
  A located element together with the driver's answers to the calls made on it.
  \<open>e_stale\<close> is the exception (if any) raised while the descriptor is read,
  \<open>e_clickable i\<close> tells whether the clickability wait made before the \<open>i\<close>-th click
  method (counted from 0) passes, and \<open>e_value_after v\<close> is what
  \<^verbatim>\<open>get_attribute("value")\<close> answers after \<open>v\<close> has been typed.
\<close>

record element =
  e_tag_name :: string
  e_text :: string
  e_class :: "string option"
  e_id :: "string option"
  e_displayed :: bool
  e_enabled :: bool
  e_location :: "int \<times> int"
  e_size :: "int \<times> int"
  e_stale :: "exn option"
  e_scroll :: "exn option"
  e_clickable :: "nat \<Rightarrow> bool"
  e_click :: "exn option"
  e_js_click :: "exn option"
  e_ac_click :: "exn option"
  e_ac_offset :: "exn option"
  e_submit :: "exn option"
  e_send_space :: "exn option"
  e_send_enter :: "exn option"
  e_clear :: "exn option"
  e_send_keys :: "string \<Rightarrow> exn option"
  e_value_after :: "string \<Rightarrow> exn + string option"

text \<open>
  \<open>presence sel\<close> is the outcome of
  \<^verbatim>\<open>WebDriverWait(driver, 10).until(EC.presence_of_element_located((By.XPATH, sel)))\<close>:
  the element, or the exception raised (\<open>TimeoutException\<close> when nothing matches).
\<close>

type_synonym driver = "string \<Rightarrow> exn + element"

section \<open>Interaction results\<close>

record element_info =
  ei_tag :: string
  ei_text :: string
  ei_class :: "string option"
  ei_id :: "string option"
  ei_visible :: bool
  ei_enabled :: bool
  ei_location :: "int \<times> int"
  ei_size :: "int \<times> int"

record attempt =
  at_selector :: string
  at_index :: nat
  at_success :: bool
  at_error :: "string option"

record result =
  r_success :: bool
  r_selector_used :: "string option"
  r_element_info :: "element_info option"
  r_error :: "string option"
  r_attempts :: "attempt list"

section \<open>Click methods\<close>

text \<open>
  \<^verbatim>\<open>_try_multiple_click_methods_improved\<close>: seven named methods, tried in order. Before
  each one the clickability wait runs inside the same \<^verbatim>\<open>try\<close>; the first method
  whose invocation does not raise makes the function return \<^verbatim>\<open>True\<close>.
\<close>

definition methods_improved :: "element \<Rightarrow> (string \<times> call) list" where
  "methods_improved el =
     [(''Click normal'', invoke (e_click el)),
      (''JavaScript click'', invoke (e_js_click el)),
      (''ActionChains move+click'', invoke (e_ac_click el)),
      (''ActionChains offset'', invoke (e_ac_offset el)),
      (''Submit (si es form)'',
         if e_tag_name el \<in> set [''input'', ''button''] then invoke (e_submit el) else Returns_None),
      (''Space key'',
         if e_tag_name el = ''button'' then invoke (e_send_space el) else Returns_None),
      (''Enter key'',
         if e_tag_name el = ''button'' then invoke (e_send_enter el) else Returns_None)]"

text \<open>The four methods of \<^verbatim>\<open>_try_multiple_click_methods\<close> in \<^verbatim>\<open>scraper_engine.py\<close>.\<close>

definition methods_basic :: "element \<Rightarrow> (string \<times> call) list" where
  "methods_basic el =
     [(''Click normal'', invoke (e_click el)),
      (''Click JavaScript'', invoke (e_js_click el)),
      (''ActionChains'', invoke (e_ac_click el)),
      (''ActionChains con offset'', invoke (e_ac_offset el))]"

fun try_methods :: "element \<Rightarrow> nat \<Rightarrow> (string \<times> call) list \<Rightarrow> bool" where
  "try_methods el i [] = False"
| "try_methods el i ((method_name, method_func) # rest) =
     (if \<not> e_clickable el i then try_methods el (Suc i) rest
      else (case method_func of
              Raises e \<Rightarrow> try_methods el (Suc i) rest
            | Acts \<Rightarrow> True
            | Returns_None \<Rightarrow> True))"

definition try_multiple_click_methods_improved :: "element \<Rightarrow> bool" where
  "try_multiple_click_methods_improved el = try_methods el 0 (methods_improved el)"

definition try_multiple_click_methods :: "element \<Rightarrow> bool" where
  "try_multiple_click_methods el = try_methods el 0 (methods_basic el)"

section \<open>The locator resolver\<close>

text \<open>Python truthiness of the optional \<^verbatim>\<open>value\<close> argument.\<close>

fun truthy :: "string option \<Rightarrow> bool" where
  "truthy None = False"
| "truthy (Some v) = (v \<noteq> [])"

definition capture_info :: "element \<Rightarrow> element_info" where
  "capture_info el =
     \<lparr>ei_tag = e_tag_name el, ei_text = take 50 (e_text el), ei_class = e_class el,
      ei_id = e_id el, ei_visible = e_displayed el, ei_enabled = e_enabled el,
      ei_location = e_location el, ei_size = e_size el\<rparr>"

text \<open>
  The body of the \<^verbatim>\<open>try\<close> block for one selector. \<open>Inl e\<close>: the body raised \<open>e\<close>.
  \<open>Not_visible\<close>: the \<^verbatim>\<open>continue\<close> for a present but hidden element. \<open>Won info\<close>:
  one of the three \<^verbatim>\<open>return result\<close> branches. \<open>Fell_through\<close>: the body ended
  without returning (click failed, read-back differed, or no branch matched).
\<close>

datatype body = Not_visible | Won element_info | Fell_through

definition write_text :: "element \<Rightarrow> string \<Rightarrow> exn + bool" where
  "write_text el v =
     (case e_clear el of Some e \<Rightarrow> Inl e
      | None \<Rightarrow>
        (case e_send_keys el v of Some e \<Rightarrow> Inl e
         | None \<Rightarrow>
           (case e_value_after el v of Inl e \<Rightarrow> Inl e
            | Inr got \<Rightarrow> Inr (got = Some v))))"

definition try_selector_improved ::
  "driver \<Rightarrow> string \<Rightarrow> string option \<Rightarrow> string \<Rightarrow> exn + body" where
  "try_selector_improved drv action val selector =
     (case drv selector of Inl e \<Rightarrow> Inl e
      | Inr el \<Rightarrow>
        (case e_stale el of Some e \<Rightarrow> Inl e
         | None \<Rightarrow>
           if \<not> e_displayed el then Inr Not_visible
           else (case e_scroll el of Some e \<Rightarrow> Inl e
            | None \<Rightarrow>
              if action = ''click'' then
                (if try_multiple_click_methods_improved el
                 then Inr (Won (capture_info el)) else Inr Fell_through)
              else if action = ''write'' \<and> truthy val then
                (case write_text el (the val) of Inl e \<Rightarrow> Inl e
                 | Inr ok \<Rightarrow> if ok then Inr (Won (capture_info el)) else Inr Fell_through)
              else if action = ''find'' then Inr (Won (capture_info el))
              else Inr Fell_through)))"

fun digit_char :: "nat \<Rightarrow> char" where
  "digit_char n = ''0123456789'' ! n"

fun str_nat :: "nat \<Rightarrow> string" where
  "str_nat n = (if n < 10 then [digit_char n] else str_nat (n div 10) @ [digit_char (n mod 10)])"

declare str_nat.simps [simp del]

definition new_attempt :: "string \<Rightarrow> nat \<Rightarrow> attempt" where
  "new_attempt selector i =
     \<lparr>at_selector = selector, at_index = i + 1, at_success = False, at_error = None\<rparr>"

definition append_attempt :: "attempt \<Rightarrow> result \<Rightarrow> result" where
  "append_attempt a res = res\<lparr>r_attempts := r_attempts res @ [a]\<rparr>"

text \<open>
  Every path through the loop body appends the attempt record exactly once (before a
  \<^verbatim>\<open>return\<close>, before the \<^verbatim>\<open>continue\<close>, or at the end of the body).
  \<open>attempt_selector\<close> is that record as it is appended.
\<close>

definition attempt_selector ::
  "driver \<Rightarrow> string \<Rightarrow> string option \<Rightarrow> nat \<Rightarrow> string \<Rightarrow> attempt" where
  "attempt_selector drv action val i selector =
     (case try_selector_improved drv action val selector of
        Inr Not_visible \<Rightarrow>
          (new_attempt selector i)\<lparr>at_error := Some ''Elemento presente pero no visible''\<rparr>
      | Inr (Won info) \<Rightarrow> (new_attempt selector i)\<lparr>at_success := True\<rparr>
      | Inr Fell_through \<Rightarrow> new_attempt selector i
      | Inl TimeoutException \<Rightarrow> (new_attempt selector i)\<lparr>at_error := Some ''Timeout''\<rparr>
      | Inl (OtherException m) \<Rightarrow> (new_attempt selector i)\<lparr>at_error := Some (take 100 m)\<rparr>)"

text \<open>
  The \<^verbatim>\<open>for i, selector in enumerate(selectors_list)\<close> loop; \<open>n\<close> is
  \<^verbatim>\<open>len(selectors_list)\<close> and \<open>i\<close> the running index.
\<close>

fun selector_loop ::
  "driver \<Rightarrow> string \<Rightarrow> string option \<Rightarrow> nat \<Rightarrow> nat \<Rightarrow> string list \<Rightarrow> result \<Rightarrow> result" where
  "selector_loop drv action val n i [] res =
     res\<lparr>r_error := Some (''Todos los '' @ str_nat n @ '' selectores fallaron'')\<rparr>"
| "selector_loop drv action val n i (selector # rest) res =
     (case try_selector_improved drv action val selector of
        Inr (Won info) \<Rightarrow>
          append_attempt (attempt_selector drv action val i selector)
            (res\<lparr>r_success := True, r_selector_used := Some selector,
                 r_element_info := Some info\<rparr>)
      | _ \<Rightarrow>
          selector_loop drv action val n (Suc i) rest
            (append_attempt (attempt_selector drv action val i selector) res))"

definition empty_result :: result where
  "empty_result =
     \<lparr>r_success = False, r_selector_used = None, r_element_info = None, r_error = None,
      r_attempts = []\<rparr>"

definition robust_element_interaction_improved ::
  "driver \<Rightarrow> string list \<Rightarrow> string \<Rightarrow> string option \<Rightarrow> result" where
  "robust_element_interaction_improved drv selectors_list action val =
     selector_loop drv action val (length selectors_list) 0 selectors_list empty_result"

subsection \<open>The resolver of \<^verbatim>\<open>scraper_engine.py\<close>\<close>

text \<open>
  \<^verbatim>\<open>robust_element_interaction\<close> has the same loop but returns a plain boolean and
  records nothing. \<open>Inr True\<close> is a \<^verbatim>\<open>return True\<close>; \<open>Inr False\<close> is a body that
  ended or hit \<^verbatim>\<open>continue\<close>.
\<close>

definition try_selector :: "driver \<Rightarrow> string \<Rightarrow> string option \<Rightarrow> string \<Rightarrow> exn + bool" where
  "try_selector drv action val selector =
     (case drv selector of Inl e \<Rightarrow> Inl e
      | Inr el \<Rightarrow>
        (case e_stale el of Some e \<Rightarrow> Inl e
         | None \<Rightarrow>
           if \<not> e_displayed el then Inr False
           else (case e_scroll el of Some e \<Rightarrow> Inl e
            | None \<Rightarrow>
              if action = ''click'' then Inr (try_multiple_click_methods el)
              else if action = ''write'' \<and> truthy val then write_text el (the val)
              else if action = ''find'' then Inr True
              else Inr False)))"

fun robust_element_interaction ::
  "driver \<Rightarrow> string list \<Rightarrow> string \<Rightarrow> string option \<Rightarrow> bool" where
  "robust_element_interaction drv [] action val = False"
| "robust_element_interaction drv (selector # rest) action val =
     (case try_selector drv action val selector of
        Inr True \<Rightarrow> True
      | _ \<Rightarrow> robust_element_interaction drv rest action val)"

section \<open>Sample pages\<close>

text \<open>Concrete elements and pages on which the theorems below are instantiated.\<close>

definition sample_element :: element where
  "sample_element =
     \<lparr>e_tag_name = ''div'', e_text = ''Clientes'', e_class = Some ''fd-menu'', e_id = None,
      e_displayed = True, e_enabled = True, e_location = (10, 20), e_size = (80, 24),
      e_stale = None, e_scroll = None, e_clickable = (\<lambda>i. True),
      e_click = None, e_js_click = None, e_ac_click = None, e_ac_offset = None,
      e_submit = None, e_send_space = None, e_send_enter = None, e_clear = None,
      e_send_keys = (\<lambda>v. None), e_value_after = (\<lambda>v. Inr (Some v))\<rparr>"


subsection \<open>Predicates for stating the resolver's properties\<close>

text \<open>\<open>won\<close>: the loop body returns through one of its \<^verbatim>\<open>return result\<close> branches.\<close>

definition won :: "driver \<Rightarrow> string \<Rightarrow> string option \<Rightarrow> string \<Rightarrow> bool" where
  "won drv action val s =
     (case try_selector_improved drv action val s of Inr (Won info) \<Rightarrow> True | _ \<Rightarrow> False)"


text \<open>A selector yields a usable control when its match is present and visible.\<close>

definition usable :: "driver \<Rightarrow> string \<Rightarrow> bool" where
  "usable drv s = (case drv s of Inl e \<Rightarrow> False | Inr el \<Rightarrow> e_displayed el)"

text \<open>
  Clear-then-type ran on a present, visible element without raising and the read-back
  of the field equals the intended value.
\<close>

definition read_back_matches :: "driver \<Rightarrow> string \<Rightarrow> string \<Rightarrow> bool" where
  "read_back_matches drv v s =
     (case drv s of Inl e \<Rightarrow> False
      | Inr el \<Rightarrow> e_stale el = None \<and> e_displayed el \<and> e_scroll el = None \<and>
          e_clear el = None \<and> e_send_keys el v = None \<and> e_value_after el v = Inr (Some v))"


definition hidden_element :: element where
  "hidden_element = sample_element\<lparr>e_displayed := False\<rparr>"


definition masked_input :: element where
  "masked_input = sample_element\<lparr>e_tag_name := ''input'', e_value_after := (\<lambda>v. Inr (Some (''+56 '' @ v)))\<rparr>"

definition plain_input :: element where
  "plain_input = sample_element\<lparr>e_tag_name := ''input''\<rparr>"



definition masked_page :: driver where
  "masked_page s =
     (if s = ''//input[1]'' then Inr masked_input
      else if s = ''//input[2]'' then Inr plain_input
      else Inl TimeoutException)"

definition empty_page :: driver where
  "empty_page s = (if s = ''//button[1]'' then Inr hidden_element else Inl TimeoutException)"

section \<open>Page snapshots and the diff analysis\<close>

text \<open>
  The entries of \<^verbatim>\<open>all_buttons\<close> and \<^verbatim>\<open>all_clickable_divs\<close> as
  \<^verbatim>\<open>capture_detailed_elements\<close> builds them.
\<close>

record button =
  b_index :: nat
  b_text :: string
  b_class :: "string option"
  b_id :: "string option"
  b_type :: "string option"
  b_aria_label :: "string option"
  b_title :: "string option"
  b_visible :: bool
  b_enabled :: bool
  b_location :: "int \<times> int"
  b_size :: "int \<times> int"
  b_xpath :: string
  b_outer_html :: string

record clickable_div =
  d_index :: nat
  d_text :: string
  d_class :: string
  d_id :: "string option"
  d_role :: "string option"
  d_visible :: bool
  d_clickable :: bool
  d_location :: "int \<times> int"
  d_xpath :: string

text \<open>
  What \<^verbatim>\<open>analyze_element_differences\<close> reads of a snapshot dictionary:
  \<^verbatim>\<open>get('page_hash')\<close> (\<open>None\<close> when the key is missing, as in the dictionary
  returned after a failed capture), \<^verbatim>\<open>get('all_buttons', [])\<close> and
  \<^verbatim>\<open>get('all_clickable_divs', [])\<close>. Every button carries its \<^verbatim>\<open>outer_html\<close>, so the
  \<^verbatim>\<open>try\<close> body of the analysis cannot raise on such a snapshot.
\<close>

record snapshot =
  s_page_hash :: "int option"
  s_all_buttons :: "button list"
  s_all_clickable_divs :: "clickable_div list"

datatype new_element = Button_element button | Menu_element clickable_div

record analysis =
  an_page_changed :: bool
  an_new_elements :: "new_element list"
  an_disappeared_elements :: "new_element list"
  an_likely_clicked_element :: "new_element option"
  an_new_menus_detected :: bool

text \<open>
  A Python dictionary keeps its keys in insertion order; assigning to a key that is
  present replaces the value in place.
\<close>

fun dict_set :: "'k \<Rightarrow> 'v \<Rightarrow> ('k \<times> 'v) list \<Rightarrow> ('k \<times> 'v) list" where
  "dict_set k v [] = [(k, v)]"
| "dict_set k v ((k', v') # kvs) =
     (if k = k' then (k, v) # kvs else (k', v') # dict_set k v kvs)"

text \<open>\<^verbatim>\<open>{btn['outer_html']: btn for btn in buttons}\<close>\<close>

definition buttons_by_html :: "button list \<Rightarrow> (string \<times> button) list" where
  "buttons_by_html buttons = foldl (\<lambda>d btn. dict_set (b_outer_html btn) btn d) [] buttons"

text \<open>
  The set difference of the two key sets is iterated in an order Python does not
  specify; the model takes the order of the keys in \<open>after_buttons\<close>. Each key
  \<open>html\<close> of the difference contributes \<^verbatim>\<open>after_buttons[html]\<close>.
\<close>

definition analyze_element_differences :: "snapshot \<Rightarrow> snapshot \<Rightarrow> analysis" where
  "analyze_element_differences before after =
     (let page_changed = (s_page_hash before \<noteq> s_page_hash after);
          before_buttons = buttons_by_html (s_all_buttons before);
          after_buttons = buttons_by_html (s_all_buttons after);
          new_buttons = map (\<lambda>(html, btn). Button_element btn)
             (filter (\<lambda>(html, btn). html \<notin> set (map fst before_buttons)) after_buttons);
          after_divs = s_all_clickable_divs after;
          before_divs = s_all_clickable_divs before;
          new_menus_detected = (length after_divs > length before_divs);
          new_elements = new_buttons @
             (if new_menus_detected then map Menu_element (drop (length before_divs) after_divs)
              else [])
      in \<lparr>an_page_changed = page_changed,
          an_new_elements = new_elements,
          an_disappeared_elements = [],
          an_likely_clicked_element =
            (if page_changed \<and> new_elements \<noteq> [] then Some (new_elements ! 0) else None),
          an_new_menus_detected = new_menus_detected\<rparr>)"

definition menu_button :: button where
  "menu_button =
     \<lparr>b_index = 0, b_text = ''Acciones'', b_class = Some ''action-menu'', b_id = None,
      b_type = Some ''button'', b_aria_label = None, b_title = Some ''Acciones'',
      b_visible = True, b_enabled = True, b_location = (400, 120), b_size = (90, 30),
      b_xpath = ''(//button)[1]'', b_outer_html = ''<button class=action-menu>Acciones</button>''\<rparr>"

definition snapshot_plain :: snapshot where
  "snapshot_plain = \<lparr>s_page_hash = Some 1111, s_all_buttons = [], s_all_clickable_divs = []\<rparr>"

definition snapshot_with_button :: snapshot where
  "snapshot_with_button =
     \<lparr>s_page_hash = Some 2222, s_all_buttons = [menu_button], s_all_clickable_divs = []\<rparr>"

definition snapshot_same_hash :: snapshot where
  "snapshot_same_hash =
     \<lparr>s_page_hash = Some 1111, s_all_buttons = [menu_button], s_all_clickable_divs = []\<rparr>"

section \<open>Artifact wait\<close>













subsection \<open>The ultra-fast variant\<close>











section \<open>Properties of the click methods\<close>



section \<open>Properties of the locator resolver\<close>

lemma selector_loop_no_win:
  "\<forall>s\<in>set ss. \<not> won drv a v s \<Longrightarrow>
   selector_loop drv a v n i ss res =
     res\<lparr>r_error := Some (''Todos los '' @ str_nat n @ '' selectores fallaron''),
         r_attempts := r_attempts res @ map (\<lambda>(j, s). attempt_selector drv a v j s) (enumerate i ss)\<rparr>"
proof (induction ss arbitrary: i res)
  case Nil
  then show ?case by simp
next
  case (Cons s ss)
  from Cons.prems have nw: "\<not> won drv a v s" and rest: "\<forall>s\<in>set ss. \<not> won drv a v s" by auto
  from nw have step: "selector_loop drv a v n i (s # ss) res =
      selector_loop drv a v n (Suc i) ss (append_attempt (attempt_selector drv a v i s) res)"
    by (auto simp: won_def split: sum.splits body.splits)
  show ?case
    unfolding step Cons.IH[OF rest] by (simp add: append_attempt_def)
qed






lemma won_imp_usable: "won drv a v s \<Longrightarrow> usable drv s"
  by (auto simp: won_def usable_def try_selector_improved_def split: sum.splits option.splits if_splits)

lemma attempt_selector_unusable:
  "\<not> usable drv s \<Longrightarrow>
   at_selector (attempt_selector drv a v i s) = s \<and> at_index (attempt_selector drv a v i s) = Suc i \<and>
   \<not> at_success (attempt_selector drv a v i s) \<and> at_error (attempt_selector drv a v i s) \<noteq> None"
  by (auto simp: usable_def attempt_selector_def try_selector_improved_def new_attempt_def
        split: sum.splits option.splits exn.splits)

lemma attempt_selector_selector [simp]: "at_selector (attempt_selector drv a v i s) = s"
  by (auto simp: attempt_selector_def new_attempt_def split: sum.splits body.splits exn.splits)

lemma attempt_selector_success [simp]: "at_success (attempt_selector drv a v i s) = won drv a v s"
  by (auto simp: attempt_selector_def new_attempt_def won_def split: sum.splits body.splits exn.splits)

lemma map_selector_enumerate:
  "map at_selector (map (\<lambda>(j, s). attempt_selector drv a v j s) (enumerate i ss)) = ss"
  by (induction ss arbitrary: i) simp_all

lemma map_selector_enumerate':
  "map (at_selector \<circ> (\<lambda>(j, s). attempt_selector drv a v j s)) (enumerate i ss) = ss"
  by (induction ss arbitrary: i) simp_all

lemma enumerate_Nil_iff: "(enumerate i ss = []) = (ss = [])"
  by (cases ss) simp_all

text \<open>
  C2. For every locator list in which no locator yields a present and visible control,
  \<^verbatim>\<open>robust_element_interaction_improved\<close> returns a result with \<open>success = False\<close>,
  no winning locator, the error message set, and one failed attempt (with its error)
  for every locator of the list, in order; the attempt list is non-empty whenever the
  locator list is. Every exception of the body is caught by the loop, so the function
  returns a result for every behaviour of the driver.
\<close>

theorem no_usable_control_fails:
  assumes "\<forall>s\<in>set sels. \<not> usable drv s"
  shows "(let res = robust_element_interaction_improved drv sels action val in
          \<not> r_success res \<and> r_selector_used res = None \<and>
          r_error res = Some (''Todos los '' @ str_nat (length sels) @ '' selectores fallaron'') \<and>
          map at_selector (r_attempts res) = sels \<and>
          (\<forall>a\<in>set (r_attempts res). \<not> at_success a \<and> at_error a \<noteq> None) \<and>
          (sels \<noteq> [] \<longrightarrow> r_attempts res \<noteq> []))"
proof -
  have nw: "\<forall>s\<in>set sels. \<not> won drv action val s"
    using assms won_imp_usable by blast
  have all: "\<forall>x\<in>set (enumerate 0 sels). \<not> at_success (case x of (j, s) \<Rightarrow> attempt_selector drv action val j s)
       \<and> at_error (case x of (j, s) \<Rightarrow> attempt_selector drv action val j s) \<noteq> None"
  proof
    fix x assume "x \<in> set (enumerate 0 sels)"
    then have "snd x \<in> set sels" by (metis enumerate_eq_zip set_zip_rightD prod.collapse)
    with assms have "\<not> usable drv (snd x)" by blast
    from attempt_selector_unusable[OF this, of action val "fst x"]
    show "\<not> at_success (case x of (j, s) \<Rightarrow> attempt_selector drv action val j s)
       \<and> at_error (case x of (j, s) \<Rightarrow> attempt_selector drv action val j s) \<noteq> None"
      by (simp add: case_prod_unfold)
  qed
  show ?thesis
    unfolding robust_element_interaction_improved_def selector_loop_no_win[OF nw] Let_def
    using all by (simp add: empty_result_def map_selector_enumerate' enumerate_Nil_iff)
qed

lemma won_write_iff:
  "v \<noteq> [] \<Longrightarrow> won drv ''write'' (Some v) s = read_back_matches drv v s"
  by (auto simp: won_def read_back_matches_def try_selector_improved_def write_text_def
        split: sum.splits option.splits if_splits body.splits)

lemma try_selector_write_iff:
  "v \<noteq> [] \<Longrightarrow> (try_selector drv ''write'' (Some v) s = Inr True) = read_back_matches drv v s"
  by (auto simp: read_back_matches_def try_selector_def write_text_def
        split: sum.splits option.splits if_splits)

lemma robust_element_interaction_iff:
  "robust_element_interaction drv sels a v = (\<exists>s\<in>set sels. try_selector drv a v s = Inr True)"
  by (induction sels) (auto split: sum.splits bool.splits)

lemma selector_loop_step_won:
  "won drv a v s \<Longrightarrow> \<exists>info. selector_loop drv a v n i (s # ss) res =
     append_attempt (attempt_selector drv a v i s)
       (res\<lparr>r_success := True, r_selector_used := Some s, r_element_info := Some info\<rparr>)"
  by (auto simp: won_def split: sum.splits body.splits)

lemma selector_loop_step_lost:
  "\<not> won drv a v s \<Longrightarrow> selector_loop drv a v n i (s # ss) res =
     selector_loop drv a v n (Suc i) ss (append_attempt (attempt_selector drv a v i s) res)"
  by (auto simp: won_def split: sum.splits body.splits)

lemma loop_success:
  "r_success (selector_loop drv a v n i ss res) = (r_success res \<or> (\<exists>s\<in>set ss. won drv a v s))"
proof (induction ss arbitrary: i res)
  case Nil show ?case by simp
next
  case (Cons s ss)
  show ?case
  proof (cases "won drv a v s")
    case True
    from selector_loop_step_won[OF True, of n i ss res] obtain info where
      "selector_loop drv a v n i (s # ss) res = append_attempt (attempt_selector drv a v i s)
       (res\<lparr>r_success := True, r_selector_used := Some s, r_element_info := Some info\<rparr>)" by blast
    then show ?thesis using True by (simp add: append_attempt_def)
  next
    case False
    show ?thesis
      unfolding selector_loop_step_lost[OF False] Cons.IH using False
      by (simp add: append_attempt_def)
  qed
qed

lemma loop_selector_used:
  "r_selector_used (selector_loop drv a v n i ss res) =
     (case find (won drv a v) ss of None \<Rightarrow> r_selector_used res | Some s \<Rightarrow> Some s)"
proof (induction ss arbitrary: i res)
  case Nil show ?case by simp
next
  case (Cons s ss)
  show ?case
  proof (cases "won drv a v s")
    case True
    from selector_loop_step_won[OF True, of n i ss res] obtain info where
      "selector_loop drv a v n i (s # ss) res = append_attempt (attempt_selector drv a v i s)
       (res\<lparr>r_success := True, r_selector_used := Some s, r_element_info := Some info\<rparr>)" by blast
    then show ?thesis using True by (simp add: append_attempt_def)
  next
    case False
    show ?thesis
      unfolding selector_loop_step_lost[OF False] Cons.IH using False
      by (simp add: append_attempt_def split: option.splits)
  qed
qed

lemma loop_attempt_selectors:
  "map at_selector (r_attempts (selector_loop drv a v n i ss res)) =
     map at_selector (r_attempts res) @ takeWhile (\<lambda>s. \<not> won drv a v s) ss @
       (case find (won drv a v) ss of None \<Rightarrow> [] | Some s \<Rightarrow> [s])"
proof (induction ss arbitrary: i res)
  case Nil show ?case by simp
next
  case (Cons s ss)
  show ?case
  proof (cases "won drv a v s")
    case True
    from selector_loop_step_won[OF True, of n i ss res] obtain info where
      "selector_loop drv a v n i (s # ss) res = append_attempt (attempt_selector drv a v i s)
       (res\<lparr>r_success := True, r_selector_used := Some s, r_element_info := Some info\<rparr>)" by blast
    then show ?thesis using True by (simp add: append_attempt_def)
  next
    case False
    show ?thesis
      unfolding selector_loop_step_lost[OF False] Cons.IH using False
      by (simp add: append_attempt_def)
  qed
qed

lemma loop_attempt_success:
  "\<forall>x\<in>set (r_attempts res). at_success x = won drv a v (at_selector x) \<Longrightarrow>
   \<forall>x\<in>set (r_attempts (selector_loop drv a v n i ss res)). at_success x = won drv a v (at_selector x)"
proof (induction ss arbitrary: i res)
  case Nil then show ?case by simp
next
  case (Cons s ss)
  show ?case
  proof (cases "won drv a v s")
    case True
    from selector_loop_step_won[OF True, of n i ss res] obtain info where
      "selector_loop drv a v n i (s # ss) res = append_attempt (attempt_selector drv a v i s)
       (res\<lparr>r_success := True, r_selector_used := Some s, r_element_info := Some info\<rparr>)" by blast
    then show ?thesis using True Cons.prems by (simp add: append_attempt_def)
  next
    case False
    have "\<forall>x\<in>set (r_attempts (append_attempt (attempt_selector drv a v i s) res)).
        at_success x = won drv a v (at_selector x)"
      using Cons.prems by (simp add: append_attempt_def)
    from Cons.IH[OF this] show ?thesis
      unfolding selector_loop_step_lost[OF False] .
  qed
qed

text \<open>
  C8. For a type-text request with a non-empty intended value, both resolvers report
  success if and only if some locator's field, after clear-then-type, reads back the
  intended value. An attempt is marked successful exactly when its read-back matched;
  a locator whose read-back differs is recorded as failed and the loop goes on to the
  next locator, so the winning locator is the first one that matches.
\<close>

theorem write_succeeds_iff_read_back_equal:
  assumes "v \<noteq> []"
  shows "(let res = robust_element_interaction_improved drv sels ''write'' (Some v) in
          r_success res = (\<exists>s\<in>set sels. read_back_matches drv v s) \<and>
          r_selector_used res = find (read_back_matches drv v) sels \<and>
          map at_selector (r_attempts res) =
            takeWhile (\<lambda>s. \<not> read_back_matches drv v s) sels @
              (case find (read_back_matches drv v) sels of None \<Rightarrow> [] | Some s \<Rightarrow> [s]) \<and>
          (\<forall>x\<in>set (r_attempts res). at_success x = read_back_matches drv v (at_selector x))) \<and>
         robust_element_interaction drv sels ''write'' (Some v) =
           (\<exists>s\<in>set sels. read_back_matches drv v s)"
proof -
  have w: "won drv ''write'' (Some v) = read_back_matches drv v"
    using won_write_iff[OF assms] by (intro ext) simp
  have 1: "r_success (robust_element_interaction_improved drv sels ''write'' (Some v)) =
      (\<exists>s\<in>set sels. read_back_matches drv v s)"
    unfolding robust_element_interaction_improved_def loop_success w by (simp add: empty_result_def)
  have 2: "r_selector_used (robust_element_interaction_improved drv sels ''write'' (Some v)) =
      find (read_back_matches drv v) sels"
    unfolding robust_element_interaction_improved_def loop_selector_used w
    by (simp add: empty_result_def split: option.splits)
  have 3: "map at_selector (r_attempts (robust_element_interaction_improved drv sels ''write'' (Some v))) =
      takeWhile (\<lambda>s. \<not> read_back_matches drv v s) sels @
        (case find (read_back_matches drv v) sels of None \<Rightarrow> [] | Some s \<Rightarrow> [s])"
    unfolding robust_element_interaction_improved_def loop_attempt_selectors w
    by (simp add: empty_result_def)
  have "\<forall>x\<in>set (r_attempts (robust_element_interaction_improved drv sels ''write'' (Some v))).
      at_success x = won drv ''write'' (Some v) (at_selector x)"
    unfolding robust_element_interaction_improved_def
    by (rule loop_attempt_success) (simp add: empty_result_def)
  then have 4: "\<forall>x\<in>set (r_attempts (robust_element_interaction_improved drv sels ''write'' (Some v))).
      at_success x = read_back_matches drv v (at_selector x)"
    unfolding w .
  have 5: "robust_element_interaction drv sels ''write'' (Some v) =
           (\<exists>s\<in>set sels. read_back_matches drv v s)"
    unfolding robust_element_interaction_iff using try_selector_write_iff[OF assms] by simp
  show ?thesis unfolding Let_def using 1 2 3 4 5 by blast
qed



theorem no_usable_control_fails_witness:
  "\<not> usable empty_page ''//button[1]'' \<and> \<not> usable empty_page ''//button[2]'' \<and>
   \<not> r_success (robust_element_interaction_improved empty_page [''//button[1]'', ''//button[2]'']
        ''click'' None) \<and>
   r_error (robust_element_interaction_improved empty_page [''//button[1]'', ''//button[2]'']
        ''click'' None) = Some ''Todos los 2 selectores fallaron'' \<and>
   map at_selector (r_attempts (robust_element_interaction_improved empty_page
        [''//button[1]'', ''//button[2]''] ''click'' None)) = [''//button[1]'', ''//button[2]'']"
proof -
  have u: "\<forall>s\<in>set [''//button[1]'', ''//button[2]'']. \<not> usable empty_page s"
    by (simp add: usable_def empty_page_def hidden_element_def sample_element_def)
  from no_usable_control_fails[OF u, of "''click''" None] u
  show ?thesis by (simp add: Let_def str_nat.simps)
qed

theorem write_succeeds_iff_read_back_equal_witness:
  "\<not> read_back_matches masked_page ''912345678'' ''//input[1]'' \<and>
   read_back_matches masked_page ''912345678'' ''//input[2]'' \<and>
   r_success (robust_element_interaction_improved masked_page [''//input[1]'', ''//input[2]'']
        ''write'' (Some ''912345678'')) \<and>
   r_selector_used (robust_element_interaction_improved masked_page [''//input[1]'', ''//input[2]'']
        ''write'' (Some ''912345678'')) = Some ''//input[2]'' \<and>
   map at_selector (r_attempts (robust_element_interaction_improved masked_page
        [''//input[1]'', ''//input[2]''] ''write'' (Some ''912345678''))) =
     [''//input[1]'', ''//input[2]''] \<and>
   robust_element_interaction masked_page [''//input[1]'', ''//input[2]''] ''write''
        (Some ''912345678'')"
proof -
  have v: "''912345678'' \<noteq> []" by simp
  have m: "\<not> read_back_matches masked_page ''912345678'' ''//input[1]''"
    "read_back_matches masked_page ''912345678'' ''//input[2]''"
    by (simp_all add: read_back_matches_def masked_page_def masked_input_def plain_input_def
        sample_element_def)
  from write_succeeds_iff_read_back_equal[OF v, of masked_page "[''//input[1]'', ''//input[2]'']"] m
  show ?thesis by (simp add: Let_def)
qed

section \<open>Properties of the diff analysis\<close>

lemma page_changed_symmetric:
  "an_page_changed (analyze_element_differences b a) =
   an_page_changed (analyze_element_differences a b)"
  by (auto simp: analyze_element_differences_def Let_def)

lemma disappeared_never_filled:
  "an_disappeared_elements (analyze_element_differences b a) = []"
  by (simp add: analyze_element_differences_def Let_def)

text \<open>
  C6 (code defect). The page-changed flag is symmetric, but the disappeared list is
  initialised empty and never filled: a button that appears between \<open>snapshot_plain\<close>
  and \<open>snapshot_with_button\<close> is reported as new in one direction and is missing from
  the disappeared list in the other direction.
\<close>

theorem diff_disappeared_not_swapped:
  "an_new_elements (analyze_element_differences snapshot_plain snapshot_with_button) =
     [Button_element menu_button] \<and>
   an_disappeared_elements (analyze_element_differences snapshot_with_button snapshot_plain) = [] \<and>
   set (an_new_elements (analyze_element_differences snapshot_plain snapshot_with_button)) \<noteq>
   set (an_disappeared_elements (analyze_element_differences snapshot_with_button snapshot_plain)) \<and>
   an_page_changed (analyze_element_differences snapshot_plain snapshot_with_button) =
   an_page_changed (analyze_element_differences snapshot_with_button snapshot_plain)"
  by (simp add: analyze_element_differences_def Let_def buttons_by_html_def
      snapshot_plain_def snapshot_with_button_def)

lemma keys_dict_set: "set (map fst (dict_set k v d)) = insert k (set (map fst d))"
  by (induction k v d rule: dict_set.induct) (simp_all, force+)

lemma values_dict_set: "set (map snd (dict_set k v d)) \<subseteq> insert v (set (map snd d))"
  by (induction k v d rule: dict_set.induct) (simp_all, force+)

lemma dict_set_key_of: "\<forall>(h, b)\<in>set d. f b = h \<Longrightarrow> f v = k \<Longrightarrow> \<forall>(h, b)\<in>set (dict_set k v d). f b = h"
  by (induction k v d rule: dict_set.induct) auto

lemma foldl_dict_keys:
  "set (map fst (foldl (\<lambda>d btn. dict_set (b_outer_html btn) btn d) d0 bs)) =
     set (map fst d0) \<union> b_outer_html ` set bs"
proof (induction bs arbitrary: d0)
  case Nil show ?case by simp
next
  case (Cons b bs)
  show ?case using Cons.IH[of "dict_set (b_outer_html b) b d0"] keys_dict_set[of "b_outer_html b" b d0]
    by auto
qed

lemma foldl_dict_values:
  "set (map snd (foldl (\<lambda>d btn. dict_set (b_outer_html btn) btn d) d0 bs)) \<subseteq>
     set (map snd d0) \<union> set bs"
proof (induction bs arbitrary: d0)
  case Nil show ?case by simp
next
  case (Cons b bs)
  show ?case using Cons.IH[of "dict_set (b_outer_html b) b d0"] values_dict_set[of "b_outer_html b" b d0]
    by auto
qed

lemma foldl_dict_key_of:
  "\<forall>(h, b)\<in>set d0. b_outer_html b = h \<Longrightarrow>
   \<forall>(h, b)\<in>set (foldl (\<lambda>d btn. dict_set (b_outer_html btn) btn d) d0 bs). b_outer_html b = h"
proof (induction bs arbitrary: d0)
  case Nil then show ?case by simp
next
  case (Cons b bs)
  show ?case
    by (simp, rule Cons.IH, rule dict_set_key_of[OF Cons.prems]) simp
qed

lemma new_button_is_new:
  assumes "Button_element x \<in> set (an_new_elements (analyze_element_differences b a))"
  shows "x \<in> set (s_all_buttons a) \<and> b_outer_html x \<notin> b_outer_html ` set (s_all_buttons b)"
proof -
  from assms obtain h where hx: "(h, x) \<in> set (buttons_by_html (s_all_buttons a))"
    and hn: "h \<notin> set (map fst (buttons_by_html (s_all_buttons b)))"
    by (auto simp: analyze_element_differences_def Let_def split: if_splits)
  have k: "b_outer_html x = h"
    using foldl_dict_key_of[of "[]" "s_all_buttons a"] hx by (auto simp: buttons_by_html_def)
  have "x \<in> set (map snd (buttons_by_html (s_all_buttons a)))" using hx by force
  then have m: "x \<in> set (s_all_buttons a)"
    using foldl_dict_values[of "[]" "s_all_buttons a"] by (auto simp: buttons_by_html_def)
  from hn have "h \<notin> b_outer_html ` set (s_all_buttons b)"
    using foldl_dict_keys[of "[]" "s_all_buttons b"] by (simp add: buttons_by_html_def)
  with k m show ?thesis by simp
qed

text \<open>
  C7 (amended). The inferred likely-clicked element is the first entry of the
  new-elements list exactly when the page fingerprint changed and that list is
  non-empty; it is null whenever the list is empty and whenever the fingerprint did not
  change. An inferred button is a button of the after-snapshot whose \<^verbatim>\<open>outer_html\<close>
  no button of the before-snapshot has.
\<close>

theorem likely_clicked_is_first_new_when_page_changed:
  "(let r = analyze_element_differences b a in
      (an_page_changed r \<and> an_new_elements r \<noteq> [] \<longrightarrow>
         an_likely_clicked_element r = Some (hd (an_new_elements r))) \<and>
      (an_new_elements r = [] \<longrightarrow> an_likely_clicked_element r = None) \<and>
      (\<not> an_page_changed r \<longrightarrow> an_likely_clicked_element r = None) \<and>
      an_page_changed r = (s_page_hash b \<noteq> s_page_hash a) \<and>
      (\<forall>x. an_likely_clicked_element r = Some (Button_element x) \<longrightarrow>
         x \<in> set (s_all_buttons a) \<and> b_outer_html x \<notin> b_outer_html ` set (s_all_buttons b)))"
proof -
  have 1: "an_likely_clicked_element (analyze_element_differences b a) =
      (if an_page_changed (analyze_element_differences b a) \<and>
          an_new_elements (analyze_element_differences b a) \<noteq> []
       then Some (hd (an_new_elements (analyze_element_differences b a))) else None)"
    by (simp add: analyze_element_differences_def Let_def hd_conv_nth)
  have 2: "an_page_changed (analyze_element_differences b a) = (s_page_hash b \<noteq> s_page_hash a)"
    by (simp add: analyze_element_differences_def Let_def)
  have 3: "\<And>x. an_likely_clicked_element (analyze_element_differences b a) = Some (Button_element x) \<Longrightarrow>
      Button_element x \<in> set (an_new_elements (analyze_element_differences b a))"
  proof -
    fix x
    assume l: "an_likely_clicked_element (analyze_element_differences b a) = Some (Button_element x)"
    from l have ne: "an_new_elements (analyze_element_differences b a) \<noteq> []"
      unfolding 1 by (auto split: if_splits)
    from l have "hd (an_new_elements (analyze_element_differences b a)) = Button_element x"
      unfolding 1 by (auto split: if_splits)
    with hd_in_set[OF ne]
    show "Button_element x \<in> set (an_new_elements (analyze_element_differences b a))" by simp
  qed
  show ?thesis
    unfolding Let_def using 1 2 3 new_button_is_new[of _ b a] by auto
qed

theorem likely_clicked_is_first_new_when_page_changed_witness:
  "an_page_changed (analyze_element_differences snapshot_plain snapshot_with_button) \<and>
   an_new_elements (analyze_element_differences snapshot_plain snapshot_with_button) =
     [Button_element menu_button] \<and>
   an_likely_clicked_element (analyze_element_differences snapshot_plain snapshot_with_button) =
     Some (Button_element menu_button)"
proof -
  have n: "an_new_elements (analyze_element_differences snapshot_plain snapshot_with_button) =
     [Button_element menu_button]"
    by (simp add: analyze_element_differences_def Let_def buttons_by_html_def
      snapshot_plain_def snapshot_with_button_def)
  have p: "an_page_changed (analyze_element_differences snapshot_plain snapshot_with_button)"
    by (simp add: analyze_element_differences_def Let_def snapshot_plain_def snapshot_with_button_def)
  from likely_clicked_is_first_new_when_page_changed[of snapshot_plain snapshot_with_button] n p
  show ?thesis by (simp add: Let_def)
qed

text \<open>
  C7 as stated fails: with equal fingerprints the new-elements list holds the new
  button, yet no element is inferred.
\<close>

theorem likely_clicked_first_appeared_counterexample:
  "an_new_elements (analyze_element_differences snapshot_plain snapshot_same_hash) =
     [Button_element menu_button] \<and>
   an_likely_clicked_element (analyze_element_differences snapshot_plain snapshot_same_hash) = None"
  by (simp add: analyze_element_differences_def Let_def buttons_by_html_def
      snapshot_plain_def snapshot_same_hash_def)





























end
